theory Spec2Isabelle
  imports Main
begin

section \<open>The store: users and refresh tokens (schema.sql, repository.ts)\<close>

text \<open>
  A timestamp is a point on one linear clock, counted in milliseconds since the epoch as a
  JavaScript \<^verbatim>\<open>Date\<close> does. The handlers read the clock once per request; the
  value is passed in as \<open>now\<close> and serves for \<^verbatim>\<open>NOW()\<close>,
  \<^verbatim>\<open>CURRENT_TIMESTAMP\<close> and \<^verbatim>\<open>new Date()\<close> alike.
\<close>

type_synonym timestamp = int

text \<open>
  The rows of \<^verbatim>\<open>users\<close> and \<^verbatim>\<open>refresh_tokens\<close>. Field names carry a
  prefix (\<open>u_\<close>, \<open>rt_\<close>) because both tables have an \<^verbatim>\<open>id\<close> and a
  \<^verbatim>\<open>created_at\<close> column.
\<close>

record user =
  u_id :: int
  u_email :: string
  u_password_hash :: string
  u_full_name :: "string option"
  u_is_verified :: bool
  u_created_at :: timestamp
  u_updated_at :: timestamp

record refresh_token =
  rt_id :: int
  rt_user_id :: int
  rt_token :: string
  rt_expires_at :: timestamp
  rt_created_at :: timestamp

text \<open>
  The database: both tables in insertion order, and the two \<^verbatim>\<open>SERIAL\<close>
  sequences. The pool is assumed to hand out a connection (\<^verbatim>\<open>pool.connect()\<close>
  succeeds), values are assumed to fit their column widths, and sequence exhaustion is left
  out; the errors a statement can raise are then the constraint violations of schema.sql.
\<close>

record database =
  users :: "user list"
  users_id_seq :: int
  refresh_tokens :: "refresh_token list"
  refresh_tokens_id_seq :: int

datatype db_error = UniqueViolation | ForeignKeyViolation

definition empty_db :: database where
  "empty_db = \<lparr>users = [], users_id_seq = 1, refresh_tokens = [], refresh_tokens_id_seq = 1\<rparr>"

text \<open>
  \<^verbatim>\<open>INSERT INTO users (email, password_hash, full_name) VALUES ($1, $2, $3) RETURNING *\<close>
  with \<^verbatim>\<open>fullName || null\<close> for the third parameter. The sequence value is drawn
  before the unique index on \<^verbatim>\<open>email\<close> is checked, so a rejected insert still
  advances the sequence.
\<close>

definition createUser ::
  "string \<Rightarrow> string \<Rightarrow> string option \<Rightarrow> timestamp \<Rightarrow> database \<Rightarrow> (db_error + user) \<times> database" where
  "createUser email passwordHash fullName now db =
     (let row = \<lparr>u_id = users_id_seq db, u_email = email, u_password_hash = passwordHash,
                 u_full_name = (case fullName of None \<Rightarrow> None
                                | Some n \<Rightarrow> if n = [] then None else Some n),
                 u_is_verified = False, u_created_at = now, u_updated_at = now\<rparr>;
          db1 = db\<lparr>users_id_seq := users_id_seq db + 1\<rparr>
      in if email \<in> set (map u_email (users db)) then (Inl UniqueViolation, db1)
         else (Inr row, db1\<lparr>users := users db @ [row]\<rparr>))"

text \<open>\<^verbatim>\<open>SELECT * FROM users WHERE email = $1\<close>; the first row, or null.\<close>

definition findUserByEmail :: "string \<Rightarrow> database \<Rightarrow> user option" where
  "findUserByEmail email db =
     (case filter (\<lambda>u. u_email u = email) (users db) of [] \<Rightarrow> None | u # _ \<Rightarrow> Some u)"

text \<open>\<^verbatim>\<open>SELECT * FROM users WHERE id = $1\<close>; the first row, or null.\<close>

definition findUserById :: "int \<Rightarrow> database \<Rightarrow> user option" where
  "findUserById userId db =
     (case filter (\<lambda>u. u_id u = userId) (users db) of [] \<Rightarrow> None | u # _ \<Rightarrow> Some u)"

text \<open>
  \<^verbatim>\<open>INSERT INTO refresh_tokens (user_id, token, expires_at) VALUES ($1, $2, $3) RETURNING *\<close>.
  The unique index on \<^verbatim>\<open>token\<close> is checked when the row is inserted, the foreign
  key to \<^verbatim>\<open>users(id)\<close> at the end of the statement.
\<close>

definition createRefreshToken ::
  "int \<Rightarrow> string \<Rightarrow> timestamp \<Rightarrow> timestamp \<Rightarrow> database \<Rightarrow> (db_error + refresh_token) \<times> database" where
  "createRefreshToken userId token expiresAt now db =
     (let row = \<lparr>rt_id = refresh_tokens_id_seq db, rt_user_id = userId, rt_token = token,
                 rt_expires_at = expiresAt, rt_created_at = now\<rparr>;
          db1 = db\<lparr>refresh_tokens_id_seq := refresh_tokens_id_seq db + 1\<rparr>
      in if token \<in> set (map rt_token (refresh_tokens db)) then (Inl UniqueViolation, db1)
         else if userId \<notin> set (map u_id (users db)) then (Inl ForeignKeyViolation, db1)
         else (Inr row, db1\<lparr>refresh_tokens := refresh_tokens db @ [row]\<rparr>))"

text \<open>
  \<^verbatim>\<open>SELECT * FROM refresh_tokens WHERE token = $1 AND expires_at > NOW()\<close>;
  the first row, or null. The store is only read.
\<close>

definition findRefreshToken :: "string \<Rightarrow> timestamp \<Rightarrow> database \<Rightarrow> refresh_token option" where
  "findRefreshToken token now db =
     (case filter (\<lambda>r. rt_token r = token \<and> rt_expires_at r > now) (refresh_tokens db) of
        [] \<Rightarrow> None
      | r # _ \<Rightarrow> Some r)"

text \<open>
  \<^verbatim>\<open>DELETE FROM refresh_tokens WHERE token = $1\<close>; the result says whether a row was
  deleted (\<^verbatim>\<open>rowCount > 0\<close>).
\<close>

definition deleteRefreshToken :: "string \<Rightarrow> database \<Rightarrow> bool \<times> database" where
  "deleteRefreshToken token db =
     (let rowCount = length (filter (\<lambda>r. rt_token r = token) (refresh_tokens db))
      in (rowCount > 0,
          db\<lparr>refresh_tokens := filter (\<lambda>r. rt_token r \<noteq> token) (refresh_tokens db)\<rparr>))"

text \<open>\<^verbatim>\<open>DELETE FROM refresh_tokens WHERE user_id = $1\<close>.\<close>

definition deleteUserRefreshTokens :: "int \<Rightarrow> database \<Rightarrow> database" where
  "deleteUserRefreshTokens userId db =
     db\<lparr>refresh_tokens := filter (\<lambda>r. rt_user_id r \<noteq> userId) (refresh_tokens db)\<rparr>"

text \<open>
  A row of \<^verbatim>\<open>users\<close> removed from outside the auth core (no route deletes a user);
  \<^verbatim>\<open>ON DELETE CASCADE\<close> removes the user's refresh tokens with it.
\<close>

definition deleteUserCascade :: "int \<Rightarrow> database \<Rightarrow> database" where
  "deleteUserCascade userId db =
     db\<lparr>users := filter (\<lambda>u. u_id u \<noteq> userId) (users db),
        refresh_tokens := filter (\<lambda>r. rt_user_id r \<noteq> userId) (refresh_tokens db)\<rparr>"

section \<open>Configuration and collaborators\<close>

text \<open>The \<^verbatim>\<open>jwt\<close> section of \<^verbatim>\<open>config\<close> (env.ts), after a successful
  \<^verbatim>\<open>parseInt\<close> of the day count.\<close>

record config =
  accessSecret :: string
  accessExpiry :: string
  refreshExpiryDays :: int

record password_validation =
  valid :: bool
  errors :: "string list"

record JWTPayload =
  userId :: int
  email :: string

text \<open>
  A signed access token, seen through its decoded structure: the payload, the two
  registered claims \<^verbatim>\<open>iat\<close> and \<^verbatim>\<open>exp\<close>, and the signature.
\<close>

record jwt =
  jwt_userId :: int
  jwt_email :: string
  jwt_iat :: timestamp
  jwt_exp :: timestamp
  jwt_signature :: string

text \<open>
  What the handlers import and this development does not have the code of: the four
  functions of utils/password.ts, and from the jsonwebtoken library the keyed signature
  function and the parser of a time span such as \<^verbatim>\<open>15m\<close> (the span in clock
  units, or nothing when the text is not a time span). They are parameters of the model.
\<close>

record env =
  isValidEmail :: "string \<Rightarrow> bool"
  isValidPassword :: "string \<Rightarrow> password_validation"
  hashPassword :: "string \<Rightarrow> string"
  comparePassword :: "string \<Rightarrow> string \<Rightarrow> bool"
  hmac :: "string \<Rightarrow> int \<times> string \<times> timestamp \<times> timestamp \<Rightarrow> string"
  timespan :: "string \<Rightarrow> int option"

datatype jwt_error = InvalidExpiresIn | JsonWebTokenError | TokenExpiredError

text \<open>
  Modelled from the spec: \<^verbatim>\<open>jwt.sign\<close> of the jsonwebtoken library, which is not
  part of the sources. It signs the claim set (user id, email, issued-at, expires-at) with
  the secret; a lifetime that is not a time span makes it throw.
\<close>

definition jwt_sign :: "env \<Rightarrow> JWTPayload \<Rightarrow> string \<Rightarrow> string \<Rightarrow> timestamp \<Rightarrow> jwt_error + jwt" where
  "jwt_sign e payload secret expiresIn now =
     (case timespan e expiresIn of
        None \<Rightarrow> Inl InvalidExpiresIn
      | Some span \<Rightarrow>
          Inr \<lparr>jwt_userId = userId payload, jwt_email = email payload,
               jwt_iat = now, jwt_exp = now + span,
               jwt_signature = hmac e secret (userId payload, email payload, now, now + span)\<rparr>)"

text \<open>
  Modelled from the spec: \<^verbatim>\<open>jwt.verify\<close> of the jsonwebtoken library, which is not
  part of the sources. It checks signature integrity, then expiry, and throws on either.
\<close>

definition jwt_verify :: "env \<Rightarrow> jwt \<Rightarrow> string \<Rightarrow> timestamp \<Rightarrow> jwt_error + JWTPayload" where
  "jwt_verify e token secret now =
     (if jwt_signature token
           \<noteq> hmac e secret (jwt_userId token, jwt_email token, jwt_iat token, jwt_exp token)
      then Inl JsonWebTokenError
      else if now \<ge> jwt_exp token then Inl TokenExpiredError
      else Inr \<lparr>userId = jwt_userId token, email = jwt_email token\<rparr>)"

section \<open>Tokens (config/jwt.ts)\<close>

definition generateAccessToken :: "config \<Rightarrow> env \<Rightarrow> timestamp \<Rightarrow> JWTPayload \<Rightarrow> jwt_error + jwt" where
  "generateAccessToken cfg e now payload =
     jwt_sign e payload (accessSecret cfg) (accessExpiry cfg) now"

definition verifyAccessToken :: "config \<Rightarrow> env \<Rightarrow> timestamp \<Rightarrow> jwt \<Rightarrow> JWTPayload option" where
  "verifyAccessToken cfg e now token =
     (case jwt_verify e token (accessSecret cfg) now of
        Inr payload \<Rightarrow> Some payload
      | Inl err \<Rightarrow> None)"

text \<open>
  \<^verbatim>\<open>expiry.setDate(expiry.getDate() + config.jwt.refreshExpiryDays)\<close> on the current
  date, with days of 24 hours (a server clock without daylight-saving shifts).
\<close>

definition getRefreshTokenExpiry :: "config \<Rightarrow> timestamp \<Rightarrow> timestamp" where
  "getRefreshTokenExpiry cfg now = now + refreshExpiryDays cfg * 86400000"

text \<open>
  \<^verbatim>\<open>generateRefreshToken\<close> returns 64 random bytes in hexadecimal. The random value
  is an input of the handler that draws it (\<open>rnd\<close>); this is what such a value looks like.
\<close>

definition isRefreshTokenValue :: "string \<Rightarrow> bool" where
  "isRefreshTokenValue s \<longleftrightarrow> length s = 128 \<and> set s \<subseteq> set ''0123456789abcdef''"

text \<open>
  A character of a \<open>string\<close> is a code unit below 256, a character of Latin-1;
  JavaScript strings with a code unit from 256 on are outside the model. The letters of
  that range that have two cases are A to Z and U+00C0 to U+00DE without the
  multiplication sign U+00D7, each with its lower-case letter 32 code units above.
\<close>

definition upper_case_letters :: string where
  "upper_case_letters =
     ''ABCDEFGHIJKLMNOPQRSTUVWXYZ'' @
       [CHR 0xC0, CHR 0xC1, CHR 0xC2, CHR 0xC3, CHR 0xC4, CHR 0xC5, CHR 0xC6, CHR 0xC7,
        CHR 0xC8, CHR 0xC9, CHR 0xCA, CHR 0xCB, CHR 0xCC, CHR 0xCD, CHR 0xCE, CHR 0xCF,
        CHR 0xD0, CHR 0xD1, CHR 0xD2, CHR 0xD3, CHR 0xD4, CHR 0xD5, CHR 0xD6, CHR 0xD8,
        CHR 0xD9, CHR 0xDA, CHR 0xDB, CHR 0xDC, CHR 0xDD, CHR 0xDE]"

definition lower_case_letters :: string where
  "lower_case_letters =
     ''abcdefghijklmnopqrstuvwxyz'' @
       [CHR 0xE0, CHR 0xE1, CHR 0xE2, CHR 0xE3, CHR 0xE4, CHR 0xE5, CHR 0xE6, CHR 0xE7,
        CHR 0xE8, CHR 0xE9, CHR 0xEA, CHR 0xEB, CHR 0xEC, CHR 0xED, CHR 0xEE, CHR 0xEF,
        CHR 0xF0, CHR 0xF1, CHR 0xF2, CHR 0xF3, CHR 0xF4, CHR 0xF5, CHR 0xF6, CHR 0xF8,
        CHR 0xF9, CHR 0xFA, CHR 0xFB, CHR 0xFC, CHR 0xFD, CHR 0xFE]"

text \<open>
  \<^verbatim>\<open>String.prototype.toLowerCase\<close>: every upper-case letter is replaced by its
  lower-case letter, every other character is kept.
\<close>

definition lower_char :: "char \<Rightarrow> char" where
  "lower_char c =
     (case map_of (zip upper_case_letters lower_case_letters) c of
        None \<Rightarrow> c
      | Some l \<Rightarrow> l)"

definition toLowerCase :: "string \<Rightarrow> string" where
  "toLowerCase s = map lower_char s"

text \<open>
  The comparison of the spec, written without \<open>toLowerCase\<close>: two addresses are equal
  up to case when they have the same length and, position by position, the same character
  or the two cases of one letter. A character is an upper-case letter when its code is
  from 65 to 90 or from 192 to 222 without 215, and its lower-case letter has the code 32
  above.
\<close>

definition isUpperCaseLetter :: "char \<Rightarrow> bool" where
  "isUpperCaseLetter c =
     (let n = (of_char c :: nat) in (65 \<le> n \<and> n \<le> 90) \<or> (192 \<le> n \<and> n \<le> 222 \<and> n \<noteq> 215))"

definition sameLetter :: "char \<Rightarrow> char \<Rightarrow> bool" where
  "sameLetter c d \<longleftrightarrow>
     c = d \<or> (isUpperCaseLetter c \<and> (of_char d :: nat) = of_char c + 32)
           \<or> (isUpperCaseLetter d \<and> (of_char c :: nat) = of_char d + 32)"

definition equalIgnoringCase :: "string \<Rightarrow> string \<Rightarrow> bool" where
  "equalIgnoringCase a b \<longleftrightarrow> list_all2 sameLetter a b"

section \<open>The authentication routes (routes/auth.ts)\<close>

record user_view =
  uv_id :: int
  uv_email :: string
  uv_fullName :: "string option"

text \<open>
  What a handler sends: an error object (with the optional \<^verbatim>\<open>details\<close>), the
  \<^verbatim>\<open>AuthResponse\<close> of register and login, the new access token of refresh, or the
  success message of the two logout routes.
\<close>

datatype body =
    ErrorBody string "string list option"
  | AuthResponse jwt string user_view
  | AccessTokenBody jwt
  | SuccessBody string

record reply =
  status :: nat
  body :: body

text \<open>Request bodies; a field that the JSON body lacks is \<open>None\<close>.\<close>

record RegisterRequest =
  reg_email :: "string option"
  reg_password :: "string option"
  reg_fullName :: "string option"

record LoginRequest =
  login_email :: "string option"
  login_password :: "string option"

record RefreshTokenRequest =
  refreshToken :: "string option"

record LogoutAllRequest =
  la_userId :: "int option"

definition error_reply :: "nat \<Rightarrow> string \<Rightarrow> reply" where
  "error_reply code msg = \<lparr>status = code, body = ErrorBody msg None\<rparr>"

text \<open>
  The register handler from hashing the password on (lines 58 to 95): every exception of
  the \<^verbatim>\<open>try\<close> block ends in the one \<^verbatim>\<open>catch\<close>, which answers 500.
\<close>

definition register_create ::
  "config \<Rightarrow> env \<Rightarrow> string \<Rightarrow> timestamp \<Rightarrow> string \<Rightarrow> string \<Rightarrow> string option \<Rightarrow> database
     \<Rightarrow> reply \<times> database" where
  "register_create cfg e rnd now em password fullName db =
     (let passwordHash = hashPassword e password in
      case createUser (toLowerCase em) passwordHash fullName now db of
        (Inl err, db1) \<Rightarrow> (error_reply 500 ''Failed to register user'', db1)
      | (Inr user, db1) \<Rightarrow>
          (case generateAccessToken cfg e now \<lparr>userId = u_id user, email = u_email user\<rparr> of
             Inl err \<Rightarrow> (error_reply 500 ''Failed to register user'', db1)
           | Inr accessToken \<Rightarrow>
               (case createRefreshToken (u_id user) rnd (getRefreshTokenExpiry cfg now) now db1 of
                  (Inl err, db2) \<Rightarrow> (error_reply 500 ''Failed to register user'', db2)
                | (Inr row, db2) \<Rightarrow>
                    (\<lparr>status = 201,
                      body = AuthResponse accessToken rnd
                               \<lparr>uv_id = u_id user, uv_email = u_email user,
                                uv_fullName = u_full_name user\<rparr>\<rparr>, db2))))"

text \<open>
  The register handler. Between the duplicate check (line 51) and the insert (line 62) the
  handler is suspended at its \<^verbatim>\<open>await\<close>s, and other requests may act on the store:
  \<open>concurrent\<close> is their effect.
\<close>

definition register_interleaved ::
  "config \<Rightarrow> env \<Rightarrow> string \<Rightarrow> timestamp \<Rightarrow> (database \<Rightarrow> database) \<Rightarrow> RegisterRequest \<Rightarrow> database
     \<Rightarrow> reply \<times> database" where
  "register_interleaved cfg e rnd now concurrent req db =
     (case reg_email req of
        None \<Rightarrow> (error_reply 400 ''Email and password are required'', db)
      | Some em \<Rightarrow>
     (case reg_password req of
        None \<Rightarrow> (error_reply 400 ''Email and password are required'', db)
      | Some password \<Rightarrow>
          if em = [] \<or> password = []
          then (error_reply 400 ''Email and password are required'', db)
          else if \<not> isValidEmail e em then (error_reply 400 ''Invalid email format'', db)
          else let passwordValidation = isValidPassword e password in
            if \<not> valid passwordValidation
            then (\<lparr>status = 400,
                   body = ErrorBody ''Password does not meet requirements''
                            (Some (errors passwordValidation))\<rparr>, db)
            else (case findUserByEmail (toLowerCase em) db of
                    Some existingUser \<Rightarrow>
                      (error_reply 409 ''User with this email already exists'', db)
                  | None \<Rightarrow>
                      register_create cfg e rnd now em password (reg_fullName req)
                        (concurrent db))))"

text \<open>The register handler when nothing else touches the store meanwhile.\<close>

definition register ::
  "config \<Rightarrow> env \<Rightarrow> string \<Rightarrow> timestamp \<Rightarrow> RegisterRequest \<Rightarrow> database \<Rightarrow> reply \<times> database" where
  "register cfg e rnd now req db = register_interleaved cfg e rnd now (\<lambda>d. d) req db"

definition login ::
  "config \<Rightarrow> env \<Rightarrow> string \<Rightarrow> timestamp \<Rightarrow> LoginRequest \<Rightarrow> database \<Rightarrow> reply \<times> database" where
  "login cfg e rnd now req db =
     (case login_email req of
        None \<Rightarrow> (error_reply 400 ''Email and password are required'', db)
      | Some em \<Rightarrow>
     (case login_password req of
        None \<Rightarrow> (error_reply 400 ''Email and password are required'', db)
      | Some password \<Rightarrow>
          if em = [] \<or> password = []
          then (error_reply 400 ''Email and password are required'', db)
          else (case findUserByEmail (toLowerCase em) db of
                  None \<Rightarrow> (error_reply 401 ''Invalid email or password'', db)
                | Some user \<Rightarrow>
                    if \<not> comparePassword e password (u_password_hash user)
                    then (error_reply 401 ''Invalid email or password'', db)
                    else (case generateAccessToken cfg e now
                                 \<lparr>userId = u_id user, email = u_email user\<rparr> of
                            Inl err \<Rightarrow> (error_reply 500 ''Failed to login'', db)
                          | Inr accessToken \<Rightarrow>
                              (case createRefreshToken (u_id user) rnd
                                      (getRefreshTokenExpiry cfg now) now db of
                                 (Inl err, db1) \<Rightarrow> (error_reply 500 ''Failed to login'', db1)
                               | (Inr row, db1) \<Rightarrow>
                                   (\<lparr>status = 200,
                                     body = AuthResponse accessToken rnd
                                              \<lparr>uv_id = u_id user, uv_email = u_email user,
                                               uv_fullName = u_full_name user\<rparr>\<rparr>, db1))))))"

text \<open>
  The refresh handler. Between the token lookup (line 174) and the user lookup (line 182)
  the handler is suspended, and \<open>concurrent\<close> is what happens to the store meanwhile.
\<close>

definition refresh_interleaved ::
  "config \<Rightarrow> env \<Rightarrow> timestamp \<Rightarrow> (database \<Rightarrow> database) \<Rightarrow> RefreshTokenRequest \<Rightarrow> database
     \<Rightarrow> reply \<times> database" where
  "refresh_interleaved cfg e now concurrent req db =
     (case refreshToken req of
        None \<Rightarrow> (error_reply 400 ''Refresh token is required'', db)
      | Some t \<Rightarrow>
          if t = [] then (error_reply 400 ''Refresh token is required'', db)
          else (case findRefreshToken t now db of
                  None \<Rightarrow> (error_reply 401 ''Invalid or expired refresh token'', db)
                | Some storedToken \<Rightarrow>
                    (case findUserById (rt_user_id storedToken) (concurrent db) of
                       None \<Rightarrow> (error_reply 401 ''User not found'', concurrent db)
                     | Some user \<Rightarrow>
                         (case generateAccessToken cfg e now
                                 \<lparr>userId = u_id user, email = u_email user\<rparr> of
                            Inl err \<Rightarrow> (error_reply 500 ''Failed to refresh token'', concurrent db)
                          | Inr accessToken \<Rightarrow>
                              (\<lparr>status = 200, body = AccessTokenBody accessToken\<rparr>,
                               concurrent db)))))"

definition refresh ::
  "config \<Rightarrow> env \<Rightarrow> timestamp \<Rightarrow> RefreshTokenRequest \<Rightarrow> database \<Rightarrow> reply \<times> database" where
  "refresh cfg e now req db = refresh_interleaved cfg e now (\<lambda>d. d) req db"

definition logout :: "RefreshTokenRequest \<Rightarrow> database \<Rightarrow> reply \<times> database" where
  "logout req db =
     (case refreshToken req of
        None \<Rightarrow> (error_reply 400 ''Refresh token is required'', db)
      | Some t \<Rightarrow>
          if t = [] then (error_reply 400 ''Refresh token is required'', db)
          else (case deleteRefreshToken t db of
                  (deleted, db1) \<Rightarrow>
                    (\<lparr>status = 200, body = SuccessBody ''Logged out successfully''\<rparr>, db1)))"

text \<open>The logout-all handler; \<^verbatim>\<open>!userId\<close> holds for a missing id and for 0.\<close>

definition logoutAll :: "LogoutAllRequest \<Rightarrow> database \<Rightarrow> reply \<times> database" where
  "logoutAll req db =
     (case la_userId req of
        None \<Rightarrow> (error_reply 400 ''User ID is required'', db)
      | Some uid \<Rightarrow>
          if uid = 0 then (error_reply 400 ''User ID is required'', db)
          else (\<lparr>status = 200, body = SuccessBody ''Logged out from all devices''\<rparr>,
                deleteUserRefreshTokens uid db))"

section \<open>The constraints of the schema\<close>

text \<open>
  What schema.sql enforces on every state of the store: primary keys drawn from sequences
  that start at 1, \<^verbatim>\<open>UNIQUE\<close> on \<^verbatim>\<open>users.email\<close> and on
  \<^verbatim>\<open>refresh_tokens.token\<close>, and the foreign key of
  \<^verbatim>\<open>refresh_tokens.user_id\<close>. A stored token value is moreover never the empty
  string, since \<^verbatim>\<open>generateRefreshToken\<close> returns 128 hex digits.
\<close>

definition store_ok :: "database \<Rightarrow> bool" where
  "store_ok db \<longleftrightarrow>
     0 < users_id_seq db \<and>
     list_all (\<lambda>u. 0 < u_id u \<and> u_id u < users_id_seq db) (users db) \<and>
     distinct (map u_id (users db)) \<and>
     distinct (map u_email (users db)) \<and>
     list_all (\<lambda>r. rt_id r < refresh_tokens_id_seq db) (refresh_tokens db) \<and>
     distinct (map rt_id (refresh_tokens db)) \<and>
     distinct (map rt_token (refresh_tokens db)) \<and>
     list_all (\<lambda>r. rt_user_id r \<in> set (map u_id (users db))) (refresh_tokens db) \<and>
     list_all (\<lambda>r. rt_token r \<noteq> []) (refresh_tokens db)"

text \<open>
  The states of the store that the five routes can produce from the empty database; the
  refresh token value that register and login draw is one that
  \<^verbatim>\<open>generateRefreshToken\<close> can return.
\<close>

inductive reachable :: "database \<Rightarrow> bool" where
  initial: "reachable empty_db"
| after_register:
    "reachable db \<Longrightarrow> isRefreshTokenValue rnd \<Longrightarrow> reachable (snd (register cfg e rnd now req db))"
| after_login:
    "reachable db \<Longrightarrow> isRefreshTokenValue rnd \<Longrightarrow> reachable (snd (login cfg e rnd now req db))"
| after_refresh: "reachable db \<Longrightarrow> reachable (snd (refresh cfg e now req db))"
| after_logout: "reachable db \<Longrightarrow> reachable (snd (logout req db))"
| after_logoutAll: "reachable db \<Longrightarrow> reachable (snd (logoutAll req db))"

section \<open>Concrete collaborators and stores\<close>

text \<open>The defaults of env.ts.\<close>

definition default_config :: config where
  "default_config =
     \<lparr>accessSecret = ''change-me-in-production-access'', accessExpiry = ''15m'',
      refreshExpiryDays = 7\<rparr>"

text \<open>
  Modelled from the spec: \<^verbatim>\<open>isValidEmail\<close> of utils/password.ts, which is not part
  of the sources. Structural validation only: an \<^verbatim>\<open>@\<close> with something before it,
  and a domain with a dot.
\<close>

definition spec_isValidEmail :: "string \<Rightarrow> bool" where
  "spec_isValidEmail s =
     (let local = takeWhile (\<lambda>c. c \<noteq> CHR ''@'') s;
          rest = dropWhile (\<lambda>c. c \<noteq> CHR ''@'') s
      in local \<noteq> [] \<and> rest \<noteq> [] \<and> CHR ''.'' \<in> set (tl rest))"

text \<open>
  Modelled from the spec: \<^verbatim>\<open>isValidPassword\<close> of utils/password.ts, which is not
  part of the sources. Minimum length 8, an upper-case letter, a lower-case letter and a
  digit; every violated rule is reported.
\<close>

definition spec_isValidPassword :: "string \<Rightarrow> password_validation" where
  "spec_isValidPassword p =
     (let violations =
            (if length p < 8 then [''at least 8 characters''] else []) @
            (if list_ex (\<lambda>c. c \<in> set ''ABCDEFGHIJKLMNOPQRSTUVWXYZ'') p then []
             else [''at least one uppercase letter'']) @
            (if list_ex (\<lambda>c. c \<in> set ''abcdefghijklmnopqrstuvwxyz'') p then []
             else [''at least one lowercase letter'']) @
            (if list_ex (\<lambda>c. c \<in> set ''0123456789'') p then []
             else [''at least one number''])
      in \<lparr>valid = (violations = []), errors = violations\<rparr>)"

text \<open>
  Collaborators to run the handlers on: the two validators as the spec describes them, and
  stand-ins for the password hash, the signature and the time-span parser (15 minutes on
  the millisecond clock). The theorems below hold for every \<open>env\<close>; this one serves
  the concrete runs.
\<close>

definition test_env :: env where
  "test_env =
     \<lparr>isValidEmail = spec_isValidEmail,
      isValidPassword = spec_isValidPassword,
      hashPassword = (\<lambda>p. ''hashed:'' @ p),
      comparePassword = (\<lambda>p h. h = ''hashed:'' @ p),
      hmac = (\<lambda>secret (uid, em, issued, expires). secret @ ''/'' @ em),
      timespan = (\<lambda>s. if s = ''15m'' then Some 900000 else None)\<rparr>"

text \<open>A store with one user and one session that expires at time 1000.\<close>

definition alice :: user where
  "alice =
     \<lparr>u_id = 1, u_email = ''a@b.com'', u_password_hash = ''hashed:Passw0rd'',
      u_full_name = None, u_is_verified = False, u_created_at = 0, u_updated_at = 0\<rparr>"

definition alice_session :: refresh_token where
  "alice_session =
     \<lparr>rt_id = 1, rt_user_id = 1, rt_token = ''c0ffee'', rt_expires_at = 1000,
      rt_created_at = 0\<rparr>"

definition alice_db :: database where
  "alice_db =
     \<lparr>users = [alice], users_id_seq = 2, refresh_tokens = [alice_session],
      refresh_tokens_id_seq = 2\<rparr>"

definition register_alice :: RegisterRequest where
  "register_alice =
     \<lparr>reg_email = Some ''a@b.com'', reg_password = Some ''Passw0rd'', reg_fullName = None\<rparr>"

text \<open>
  A second client that registers the same address while the first one's handler is
  suspended: the effect of its complete register call on the store.
\<close>

definition concurrent_register_alice :: "database \<Rightarrow> database" where
  "concurrent_register_alice db =
     snd (register default_config test_env ''beef'' 0 register_alice db)"

section \<open>Letter case\<close>

lemma upper_case_codes:
  "map (of_char :: char \<Rightarrow> nat) upper_case_letters
     = [65..<91] @ [192..<215] @ [216..<223]"
  by (simp add: upper_case_letters_def upt_rec)

lemma lower_case_codes:
  "map (of_char :: char \<Rightarrow> nat) lower_case_letters
     = map (\<lambda>n. n + 32) (map of_char upper_case_letters)"
  by (simp add: upper_case_letters_def lower_case_letters_def)

lemma upper_case_code_set:
  "(of_char :: char \<Rightarrow> nat) ` set upper_case_letters
     = {65..<91} \<union> {192..<215} \<union> {216..<223}"
proof -
  have "(of_char :: char \<Rightarrow> nat) ` set upper_case_letters
          = set (map of_char upper_case_letters)"
    by simp
  also have "\<dots> = set ([65..<91] @ [192..<215] @ [216..<223])"
    by (simp only: upper_case_codes)
  also have "\<dots> = {65..<91} \<union> {192..<215} \<union> {216..<223}"
    by (simp only: set_append set_upt Un_assoc)
  finally show ?thesis .
qed

lemma upper_case_letters_distinct: "distinct upper_case_letters"
proof -
  have "distinct ([65..<91] @ [192..<215] @ [216..<223] :: nat list)"
    by (simp only: distinct_append distinct_upt set_append set_upt) auto
  then have "distinct (map (of_char :: char \<Rightarrow> nat) upper_case_letters)"
    by (simp only: upper_case_codes)
  then show ?thesis by (simp add: distinct_map)
qed

lemma letters_length: "length upper_case_letters = length lower_case_letters"
  using arg_cong [OF lower_case_codes, of length] by simp

lemma isUpperCaseLetter_iff: "isUpperCaseLetter c \<longleftrightarrow> c \<in> set upper_case_letters"
proof -
  have "c \<in> set upper_case_letters
          \<longleftrightarrow> (of_char c :: nat) \<in> of_char ` set upper_case_letters"
    by (auto simp: image_iff)
  also have "\<dots> \<longleftrightarrow> isUpperCaseLetter c"
    unfolding upper_case_code_set by (auto simp: isUpperCaseLetter_def Let_def)
  finally show ?thesis by simp
qed

lemma lower_char_upper:
  assumes "isUpperCaseLetter u"
  shows "(of_char (lower_char u) :: nat) = of_char u + 32"
proof -
  from assms have "u \<in> set upper_case_letters" by (simp add: isUpperCaseLetter_iff)
  then obtain i where i: "i < length upper_case_letters" and u: "u = upper_case_letters ! i"
    by (auto simp: in_set_conv_nth)
  from i have i': "i < length lower_case_letters" by (simp add: letters_length)
  have "map_of (zip upper_case_letters lower_case_letters) u = Some (lower_case_letters ! i)"
    unfolding u by (rule map_of_zip_nth [OF letters_length upper_case_letters_distinct i'])
  then have "lower_char u = lower_case_letters ! i" by (simp add: lower_char_def)
  moreover have "(of_char (lower_case_letters ! i) :: nat)
                   = map of_char lower_case_letters ! i"
    using i' by simp
  moreover have "\<dots> = of_char (upper_case_letters ! i) + 32"
    unfolding lower_case_codes using i by simp
  ultimately show ?thesis using u by simp
qed

lemma lower_char_other: "\<not> isUpperCaseLetter c \<Longrightarrow> lower_char c = c"
  using map_of_zip_is_None [OF letters_length, of c]
  by (simp add: isUpperCaseLetter_iff lower_char_def)

lemma lower_char_idem: "lower_char (lower_char c) = lower_char c"
proof (cases "isUpperCaseLetter c")
  case True
  then have "(of_char (lower_char c) :: nat) = of_char c + 32" by (rule lower_char_upper)
  with True have "\<not> isUpperCaseLetter (lower_char c)"
    by (auto simp: isUpperCaseLetter_def Let_def)
  then show ?thesis by (rule lower_char_other)
next
  case False
  then show ?thesis by (simp add: lower_char_other)
qed

lemma sameLetter_lower_char:
  assumes "sameLetter c d"
  shows "lower_char c = lower_char d"
proof -
  have up: "lower_char a = lower_char b"
    if "isUpperCaseLetter a" and "(of_char b :: nat) = of_char a + 32" for a b
  proof -
    from that have "(of_char b :: nat) = of_char (lower_char a)"
      by (simp add: lower_char_upper)
    then have "b = lower_char a" by simp
    then show ?thesis by (simp add: lower_char_idem)
  qed
  from assms consider "c = d"
    | "isUpperCaseLetter c" "(of_char d :: nat) = of_char c + 32"
    | "isUpperCaseLetter d" "(of_char c :: nat) = of_char d + 32"
    by (auto simp: sameLetter_def)
  then show ?thesis
  proof cases
    case 1
    then show ?thesis by simp
  next
    case 2
    then show ?thesis by (rule up)
  next
    case 3
    then have "lower_char d = lower_char c" by (rule up)
    then show ?thesis by simp
  qed
qed

lemma equalIgnoringCase_toLowerCase:
  "equalIgnoringCase a b \<Longrightarrow> toLowerCase a = toLowerCase b"
  unfolding equalIgnoringCase_def toLowerCase_def
  by (induction a b rule: list_all2_induct) (simp_all add: sameLetter_lower_char)

lemma equalIgnoringCase_Nil: "equalIgnoringCase a b \<Longrightarrow> a = [] \<longleftrightarrow> b = []"
  by (auto simp: equalIgnoringCase_def)

section \<open>Lookups by a unique key\<close>

lemma filter_key_unique:
  "distinct (map f xs) \<Longrightarrow> r \<in> set xs \<Longrightarrow> filter (\<lambda>x. f x = f r) xs = [r]"
proof (induction xs)
  case Nil
  then show ?case by simp
next
  case (Cons x xs)
  show ?case
  proof (cases "x = r")
    case True
    with Cons.prems have "f r \<notin> f ` set xs" by simp
    then have "\<forall>y \<in> set xs. f y \<noteq> f r" by (metis imageI)
    then have "filter (\<lambda>x. f x = f r) xs = []" by (simp add: filter_empty_conv)
    with True show ?thesis by simp
  next
    case False
    with Cons.prems have "r \<in> set xs" "f x \<noteq> f r" by auto
    with Cons show ?thesis by simp
  qed
qed

lemma filter_key_and:
  "filter (\<lambda>x. f x = k \<and> P x) xs = filter P (filter (\<lambda>x. f x = k) xs)"
  by (simp add: conj_commute)

lemma remove1_key_absent:
  "distinct (map f xs) \<Longrightarrow> r \<in> set xs \<Longrightarrow> y \<in> set (remove1 r xs) \<Longrightarrow> f y \<noteq> f r"
proof (induction xs)
  case Nil
  then show ?case by simp
next
  case (Cons a xs)
  show ?case
  proof (cases "a = r")
    case True
    with Cons.prems have "f r \<notin> f ` set xs" "y \<in> set xs" by simp_all
    then show ?thesis by (metis imageI)
  next
    case False
    with Cons.prems have d: "distinct (map f xs)" "r \<in> set xs" "f a \<notin> f ` set xs"
      and y: "y = a \<or> y \<in> set (remove1 r xs)" by auto
    from d(2,3) have "f a \<noteq> f r" by (metis imageI)
    with y Cons.IH [OF d(1,2)] show ?thesis by blast
  qed
qed

lemma store_ok_tokens_distinct: "store_ok db \<Longrightarrow> distinct (map rt_token (refresh_tokens db))"
  by (simp add: store_ok_def)

lemma findRefreshToken_unique_row:
  assumes "store_ok db" and "r \<in> set (refresh_tokens db)"
  shows "findRefreshToken (rt_token r) now db = (if rt_expires_at r > now then Some r else None)"
  using filter_key_unique [OF store_ok_tokens_distinct [OF assms(1)] assms(2)]
  by (simp add: findRefreshToken_def filter_key_and)

lemma alice_db_ok: "store_ok alice_db"
  by (simp add: store_ok_def alice_db_def alice_def alice_session_def)

section \<open>The store operations keep the constraints and the user rows\<close>

lemma store_ok_empty: "store_ok empty_db"
  by (simp add: store_ok_def empty_db_def)

lemma createUser_store_okD:
  "store_ok db \<Longrightarrow> createUser em h fn now db = (res, db') \<Longrightarrow> store_ok db'"
  by (auto simp: createUser_def Let_def store_ok_def list_all_iff split: if_splits) force+

lemma createRefreshToken_store_okD:
  "store_ok db \<Longrightarrow> t \<noteq> [] \<Longrightarrow> createRefreshToken uid t ex now db = (res, db') \<Longrightarrow> store_ok db'"
  by (auto simp: createRefreshToken_def Let_def store_ok_def list_all_iff split: if_splits) force+

lemma deleteRefreshToken_store_okD:
  "store_ok db \<Longrightarrow> deleteRefreshToken t db = (res, db') \<Longrightarrow> store_ok db'"
  by (auto simp: deleteRefreshToken_def Let_def store_ok_def list_all_iff distinct_map_filter)

lemma deleteUserRefreshTokens_store_ok:
  "store_ok db \<Longrightarrow> store_ok (deleteUserRefreshTokens uid db)"
  by (auto simp: deleteUserRefreshTokens_def store_ok_def list_all_iff distinct_map_filter)

lemma register_create_store_ok:
  "store_ok db \<Longrightarrow> rnd \<noteq> [] \<Longrightarrow> store_ok (snd (register_create cfg e rnd now em pw fn db))"
  by (auto simp: register_create_def Let_def split: prod.splits sum.splits
           dest: createUser_store_okD createRefreshToken_store_okD)

lemma register_store_ok:
  "store_ok db \<Longrightarrow> rnd \<noteq> [] \<Longrightarrow> store_ok (snd (register cfg e rnd now req db))"
  by (auto simp: register_def register_interleaved_def Let_def register_create_store_ok
           split: option.splits)

lemma login_store_ok:
  "store_ok db \<Longrightarrow> rnd \<noteq> [] \<Longrightarrow> store_ok (snd (login cfg e rnd now req db))"
  by (auto simp: login_def split: option.splits sum.splits prod.splits
           dest: createRefreshToken_store_okD)

lemma refresh_db: "snd (refresh cfg e now req db) = db"
  by (simp add: refresh_def refresh_interleaved_def split: option.splits sum.splits)

lemma logout_store_ok: "store_ok db \<Longrightarrow> store_ok (snd (logout req db))"
  by (auto simp: logout_def split: option.splits prod.splits dest: deleteRefreshToken_store_okD)

lemma logoutAll_store_ok: "store_ok db \<Longrightarrow> store_ok (snd (logoutAll req db))"
  by (simp add: logoutAll_def deleteUserRefreshTokens_store_ok split: option.splits)

lemma isRefreshTokenValue_nonempty: "isRefreshTokenValue s \<Longrightarrow> s \<noteq> []"
  by (auto simp: isRefreshTokenValue_def)

lemma createUser_usersD:
  "createUser em h fn now db = (res, db') \<Longrightarrow>
     users db' = users db \<or> (\<exists>u. users db' = users db @ [u])"
  by (auto simp: createUser_def Let_def split: if_splits)

lemma createRefreshToken_usersD:
  "createRefreshToken uid t ex now db = (res, db') \<Longrightarrow> users db' = users db"
  by (auto simp: createRefreshToken_def Let_def split: if_splits)

lemma deleteRefreshToken_usersD:
  "deleteRefreshToken t db = (res, db') \<Longrightarrow> users db' = users db"
  by (auto simp: deleteRefreshToken_def Let_def)

lemma deleteUserRefreshTokens_users: "users (deleteUserRefreshTokens uid db) = users db"
  by (simp add: deleteUserRefreshTokens_def)

lemma register_create_users:
  "users (snd (register_create cfg e rnd now em pw fn db)) = users db
   \<or> (\<exists>u. users (snd (register_create cfg e rnd now em pw fn db)) = users db @ [u])"
  by (auto simp: register_create_def Let_def split: prod.splits sum.splits
           dest!: createUser_usersD createRefreshToken_usersD)

lemma register_users:
  "users (snd (register cfg e rnd now req db)) = users db
   \<or> (\<exists>u. users (snd (register cfg e rnd now req db)) = users db @ [u])"
  using register_create_users [of cfg e rnd now _ _ "reg_fullName req" db]
  by (auto simp: register_def register_interleaved_def Let_def split: option.splits)

lemma login_users: "users (snd (login cfg e rnd now req db)) = users db"
  by (auto simp: login_def split: option.splits sum.splits prod.splits
           dest!: createRefreshToken_usersD)

lemma logout_users: "users (snd (logout req db)) = users db"
  by (auto simp: logout_def split: option.splits prod.splits dest!: deleteRefreshToken_usersD)

lemma logoutAll_users: "users (snd (logoutAll req db)) = users db"
  by (simp add: logoutAll_def deleteUserRefreshTokens_users split: option.splits)

lemma deleteRefreshToken_twice:
  "snd (deleteRefreshToken t (snd (deleteRefreshToken t db))) = snd (deleteRefreshToken t db)"
  by (simp add: deleteRefreshToken_def Let_def)

lemma store_ok_token_owner:
  "store_ok db \<Longrightarrow> r \<in> set (refresh_tokens db) \<Longrightarrow> rt_user_id r \<noteq> 0 \<and> rt_token r \<noteq> []"
proof -
  assume ok: "store_ok db" and r: "r \<in> set (refresh_tokens db)"
  from ok r have "rt_user_id r \<in> set (map u_id (users db))" and ne: "rt_token r \<noteq> []"
    by (simp_all add: store_ok_def list_all_iff)
  then obtain u where "u \<in> set (users db)" "u_id u = rt_user_id r" by auto
  moreover from ok have "\<forall>u \<in> set (users db). 0 < u_id u"
    by (simp add: store_ok_def list_all_iff)
  ultimately have "0 < rt_user_id r" by metis
  with ne show ?thesis by simp
qed

lemma findRefreshToken_None_if_absent:
  "t \<notin> set (map rt_token (refresh_tokens db)) \<Longrightarrow> findRefreshToken t now db = None"
proof -
  assume "t \<notin> set (map rt_token (refresh_tokens db))"
  then have "filter (\<lambda>r. rt_token r = t \<and> rt_expires_at r > now) (refresh_tokens db) = []"
    by (auto simp: filter_empty_conv)
  then show ?thesis by (simp add: findRefreshToken_def)
qed

lemma same_token_same_row:
  "store_ok db \<Longrightarrow> r \<in> set (refresh_tokens db) \<Longrightarrow> x \<in> set (refresh_tokens db)
     \<Longrightarrow> rt_token x = rt_token r \<Longrightarrow> x = r"
  using store_ok_tokens_distinct [of db]
  by (auto simp: distinct_map dest: inj_onD)

lemma generateAccessToken_any_time:
  "generateAccessToken cfg e now payload = Inr tok
     \<Longrightarrow> \<exists>tok'. generateAccessToken cfg e now' payload' = Inr tok'"
  by (auto simp: generateAccessToken_def jwt_sign_def split: option.splits)

lemma findRefreshToken_SomeD:
  "findRefreshToken t now db = Some r
     \<Longrightarrow> r \<in> set (refresh_tokens db) \<and> rt_token r = t \<and> now < rt_expires_at r"
proof -
  assume "findRefreshToken t now db = Some r"
  then obtain rs where
    "filter (\<lambda>r. rt_token r = t \<and> rt_expires_at r > now) (refresh_tokens db) = r # rs"
    by (auto simp: findRefreshToken_def split: list.splits)
  then have "r \<in> set (filter (\<lambda>r. rt_token r = t \<and> rt_expires_at r > now) (refresh_tokens db))"
    by simp
  then show ?thesis by simp
qed

lemma refresh_200D:
  assumes "refresh cfg e now \<lparr>refreshToken = Some t\<rparr> db = (rep, db')" and "status rep = 200"
  shows "t \<noteq> [] \<and> db' = db
       \<and> (\<exists>r u tok. findRefreshToken t now db = Some r \<and> findUserById (rt_user_id r) db = Some u
             \<and> generateAccessToken cfg e now \<lparr>userId = u_id u, email = u_email u\<rparr> = Inr tok
             \<and> rep = \<lparr>status = 200, body = AccessTokenBody tok\<rparr>)"
  using assms
  by (auto simp: refresh_def refresh_interleaved_def error_reply_def
           split: if_splits option.splits sum.splits)

lemma findUserByEmail_None_iff:
  "findUserByEmail em db = None \<longleftrightarrow> em \<notin> set (map u_email (users db))"
proof -
  have "filter (\<lambda>u. u_email u = em) (users db) = [] \<longleftrightarrow> em \<notin> set (map u_email (users db))"
    by (auto simp: filter_empty_conv)
  then show ?thesis
    by (cases "filter (\<lambda>u. u_email u = em) (users db)") (simp_all add: findUserByEmail_def)
qed

lemma createUser_InrD:
  "createUser em h fn now db = (Inr u, db') \<Longrightarrow> em \<in> set (map u_email (users db'))"
  by (auto simp: createUser_def Let_def split: if_splits)

lemma register_create_201D:
  assumes "register_create cfg e rnd now em pw fn db = (rep, db')" and "status rep = 201"
  shows "toLowerCase em \<in> set (map u_email (users db'))"
  using assms
  by (auto simp: register_create_def Let_def error_reply_def
           split: prod.splits sum.splits
           dest!: createUser_InrD createRefreshToken_usersD)

lemma register_201D:
  assumes "register cfg e rnd now req db = (rep, db')" and "status rep = 201"
    and "reg_email req = Some em"
  shows "toLowerCase em \<in> set (map u_email (users db'))"
  using assms register_create_201D [of cfg e rnd now em _ "reg_fullName req" db rep db']
  by (auto simp: register_def register_interleaved_def error_reply_def Let_def
           split: option.splits if_splits)

lemma register_201_email:
  assumes "register cfg e rnd now req db = (rep, db')" and "status rep = 201"
    and "reg_email req = Some em"
  shows "em \<noteq> []"
  using assms
  by (auto simp: register_def register_interleaved_def error_reply_def Let_def
           split: option.splits if_splits)

lemma reachable_store_ok: "reachable db \<Longrightarrow> store_ok db"
proof (induction rule: reachable.induct)
  case initial
  show ?case by (rule store_ok_empty)
next
  case (after_register db rnd cfg e now req)
  then show ?case by (simp add: register_store_ok isRefreshTokenValue_nonempty)
next
  case (after_login db rnd cfg e now req)
  then show ?case by (simp add: login_store_ok isRefreshTokenValue_nonempty)
next
  case (after_refresh db cfg e now req)
  then show ?case by (simp add: refresh_db)
next
  case (after_logout db req)
  then show ?case by (simp add: logout_store_ok)
next
  case (after_logoutAll db req)
  then show ?case by (simp add: logoutAll_store_ok)
qed

lemmas concrete_defs = default_config_def test_env_def spec_isValidEmail_def
  spec_isValidPassword_def alice_def alice_session_def alice_db_def register_alice_def
  empty_db_def

lemmas model_defs = register_def register_interleaved_def register_create_def login_def
  refresh_def refresh_interleaved_def logout_def logoutAll_def error_reply_def
  createUser_def findUserByEmail_def findUserById_def createRefreshToken_def
  findRefreshToken_def deleteRefreshToken_def deleteUserRefreshTokens_def
  deleteUserCascade_def generateAccessToken_def verifyAccessToken_def jwt_sign_def
  jwt_verify_def getRefreshTokenExpiry_def toLowerCase_def lower_char_def
  upper_case_letters_def lower_case_letters_def Let_def

section \<open>Expired refresh tokens\<close>

text \<open>
  C1. In a store that satisfies the schema, a refresh-token row whose \<open>expires_at\<close> is not
  strictly later than the current time is not found by \<open>findRefreshToken\<close> under its
  token value: the lookup returns none, which is also what it returns on the store without
  that row, although the row is still in the table.
\<close>

theorem findRefreshToken_expired_is_absent:
  assumes "store_ok db"
    and "r \<in> set (refresh_tokens db)"
    and "rt_expires_at r \<le> now"
  shows "findRefreshToken (rt_token r) now db = None
       \<and> findRefreshToken (rt_token r) now db
           = findRefreshToken (rt_token r) now
               (db\<lparr>refresh_tokens := remove1 r (refresh_tokens db)\<rparr>)"
proof -
  have found: "findRefreshToken (rt_token r) now db = None"
    using findRefreshToken_unique_row [OF assms(1,2)] assms(3) by simp
  have "\<forall>x \<in> set (remove1 r (refresh_tokens db)). rt_token x \<noteq> rt_token r"
    using remove1_key_absent [OF store_ok_tokens_distinct [OF assms(1)] assms(2)] by blast
  then have "filter (\<lambda>x. rt_token x = rt_token r \<and> rt_expires_at x > now)
               (remove1 r (refresh_tokens db)) = []"
    by (auto simp: filter_empty_conv)
  then have "findRefreshToken (rt_token r) now
               (db\<lparr>refresh_tokens := remove1 r (refresh_tokens db)\<rparr>) = None"
    by (simp add: findRefreshToken_def)
  with found show ?thesis by simp
qed

theorem findRefreshToken_expired_is_absent_witness:
  "store_ok alice_db \<and> alice_session \<in> set (refresh_tokens alice_db)
   \<and> rt_expires_at alice_session \<le> 1000
   \<and> findRefreshToken ''c0ffee'' 1000 alice_db = None
   \<and> findRefreshToken ''c0ffee'' 1000 (alice_db\<lparr>refresh_tokens := []\<rparr>) = None"
proof -
  have h1: "store_ok alice_db" by (rule alice_db_ok)
  have h2: "alice_session \<in> set (refresh_tokens alice_db)" by (simp add: alice_db_def)
  have h3: "rt_expires_at alice_session \<le> 1000" by (simp add: alice_session_def)
  from findRefreshToken_expired_is_absent [OF h1 h2 h3] h1 h2 h3
  show ?thesis by (simp add: alice_db_def alice_session_def findRefreshToken_def)
qed

section \<open>User rows are never changed\<close>

text \<open>
  C10. Every operation of the auth core leaves the existing user rows as they are: login,
  refresh, logout and logout-all return a store with the same \<open>users\<close> table, and
  register returns either the same table or the same table with one row added at the end.
\<close>

theorem auth_core_keeps_user_rows:
  "(users (snd (register cfg e rnd now reg db)) = users db
      \<or> (\<exists>u. users (snd (register cfg e rnd now reg db)) = users db @ [u]))
   \<and> users (snd (login cfg e rnd now lg db)) = users db
   \<and> users (snd (refresh cfg e now rf db)) = users db
   \<and> users (snd (logout rf db)) = users db
   \<and> users (snd (logoutAll la db)) = users db"
  using register_users [of cfg e rnd now reg db]
  by (simp add: login_users refresh_db logout_users logoutAll_users)

section \<open>Rejected registrations\<close>

text \<open>
  C4. A register call that fails a validation (a missing or empty email or password, an
  email that is not of valid format, a password that violates the policy) or the
  duplicate-email check writes nothing: the store after the call is the store before it,
  and the reply is a 400 or the 409.
\<close>

theorem register_rejected_writes_nothing:
  assumes "reg_email req = None \<or> reg_email req = Some [] \<or> reg_password req = None
           \<or> reg_password req = Some []
           \<or> (\<exists>em. reg_email req = Some em \<and> \<not> isValidEmail e em)
           \<or> (\<exists>pw. reg_password req = Some pw \<and> \<not> valid (isValidPassword e pw))
           \<or> (\<exists>em. reg_email req = Some em \<and> findUserByEmail (toLowerCase em) db \<noteq> None)"
  shows "snd (register cfg e rnd now req db) = db
       \<and> status (fst (register cfg e rnd now req db)) \<in> {400, 409}"
  using assms
  by (auto simp: register_def register_interleaved_def error_reply_def Let_def
           split: option.splits)

theorem register_rejected_writes_nothing_witness:
  "\<not> valid (isValidPassword test_env ''weak'')
   \<and> snd (register default_config test_env ''beef'' 5
            \<lparr>reg_email = Some ''c@d.org'', reg_password = Some ''weak'', reg_fullName = None\<rparr>
            alice_db) = alice_db
   \<and> findUserByEmail (toLowerCase ''A@B.com'') alice_db = Some alice
   \<and> snd (register default_config test_env ''beef'' 5
            \<lparr>reg_email = Some ''A@B.com'', reg_password = Some ''Passw0rd'', reg_fullName = None\<rparr>
            alice_db) = alice_db
   \<and> status (fst (register default_config test_env ''beef'' 5
            \<lparr>reg_email = Some ''A@B.com'', reg_password = Some ''Passw0rd'', reg_fullName = None\<rparr>
            alice_db)) = 409"
proof -
  have weak: "\<not> valid (isValidPassword test_env ''weak'')"
    by (simp add: test_env_def spec_isValidPassword_def)
  have dup: "findUserByEmail (toLowerCase ''A@B.com'') alice_db = Some alice"
    by (simp add: findUserByEmail_def toLowerCase_def lower_char_def upper_case_letters_def
          lower_case_letters_def alice_db_def alice_def)
  have a: "snd (register default_config test_env ''beef'' 5
            \<lparr>reg_email = Some ''c@d.org'', reg_password = Some ''weak'', reg_fullName = None\<rparr>
            alice_db) = alice_db"
    using weak
      register_rejected_writes_nothing [of
        "\<lparr>reg_email = Some ''c@d.org'', reg_password = Some ''weak'', reg_fullName = None\<rparr>"
        test_env alice_db default_config "''beef''" 5]
    by simp
  have b: "snd (register default_config test_env ''beef'' 5
            \<lparr>reg_email = Some ''A@B.com'', reg_password = Some ''Passw0rd'', reg_fullName = None\<rparr>
            alice_db) = alice_db"
    using dup
      register_rejected_writes_nothing [of
        "\<lparr>reg_email = Some ''A@B.com'', reg_password = Some ''Passw0rd'', reg_fullName = None\<rparr>"
        test_env alice_db default_config "''beef''" 5]
    by simp
  have c: "status (fst (register default_config test_env ''beef'' 5
            \<lparr>reg_email = Some ''A@B.com'', reg_password = Some ''Passw0rd'', reg_fullName = None\<rparr>
            alice_db)) = 409"
    using dup
    by (simp add: register_def register_interleaved_def error_reply_def test_env_def
          spec_isValidEmail_def spec_isValidPassword_def)
  from weak dup a b c show ?thesis by simp
qed

section \<open>Logout\<close>

text \<open>
  C7. For every non-empty refresh token value, logout answers with the success reply,
  whatever the store holds (a matching row or none). Logging out a second time with the
  same value gives the same reply and the same store as logging out once, and no row with
  that value is left.
\<close>

theorem logout_always_succeeds:
  assumes "t \<noteq> []"
  shows "fst (logout \<lparr>refreshToken = Some t\<rparr> db)
           = \<lparr>status = 200, body = SuccessBody ''Logged out successfully''\<rparr>
       \<and> fst (logout \<lparr>refreshToken = Some t\<rparr> (snd (logout \<lparr>refreshToken = Some t\<rparr> db)))
           = fst (logout \<lparr>refreshToken = Some t\<rparr> db)
       \<and> snd (logout \<lparr>refreshToken = Some t\<rparr> (snd (logout \<lparr>refreshToken = Some t\<rparr> db)))
           = snd (logout \<lparr>refreshToken = Some t\<rparr> db)
       \<and> t \<notin> set (map rt_token (refresh_tokens (snd (logout \<lparr>refreshToken = Some t\<rparr> db))))"
  using assms
  by (auto simp: logout_def deleteRefreshToken_def Let_def split: prod.splits)

theorem logout_always_succeeds_witness:
  "''c0ffee'' \<noteq> []
   \<and> fst (logout \<lparr>refreshToken = Some ''c0ffee''\<rparr> alice_db)
       = \<lparr>status = 200, body = SuccessBody ''Logged out successfully''\<rparr>
   \<and> snd (logout \<lparr>refreshToken = Some ''c0ffee''\<rparr> alice_db) = alice_db\<lparr>refresh_tokens := []\<rparr>
   \<and> fst (logout \<lparr>refreshToken = Some ''c0ffee''\<rparr> (alice_db\<lparr>refresh_tokens := []\<rparr>))
       = \<lparr>status = 200, body = SuccessBody ''Logged out successfully''\<rparr>"
proof -
  have h: "''c0ffee'' \<noteq> []" by simp
  have s: "snd (logout \<lparr>refreshToken = Some ''c0ffee''\<rparr> alice_db) = alice_db\<lparr>refresh_tokens := []\<rparr>"
    by (simp add: logout_def deleteRefreshToken_def alice_db_def alice_session_def)
  from logout_always_succeeds [OF h, of alice_db] s h show ?thesis by simp
qed

text \<open>
  C6. In a store that satisfies the schema, take any refresh-token row and log its user
  out everywhere: logout-all succeeds, and a refresh with that row's token value on the
  resulting store is answered 401, at any time.
\<close>

theorem logoutAll_revokes_every_session:
  assumes "store_ok db" and "r \<in> set (refresh_tokens db)"
  shows "fst (logoutAll \<lparr>la_userId = Some (rt_user_id r)\<rparr> db)
           = \<lparr>status = 200, body = SuccessBody ''Logged out from all devices''\<rparr>
       \<and> fst (refresh cfg e now \<lparr>refreshToken = Some (rt_token r)\<rparr>
                (snd (logoutAll \<lparr>la_userId = Some (rt_user_id r)\<rparr> db)))
           = error_reply 401 ''Invalid or expired refresh token''"
proof -
  from store_ok_token_owner [OF assms] have nz: "rt_user_id r \<noteq> 0" and ne: "rt_token r \<noteq> []"
    by simp_all
  let ?db' = "deleteUserRefreshTokens (rt_user_id r) db"
  have out: "logoutAll \<lparr>la_userId = Some (rt_user_id r)\<rparr> db
               = (\<lparr>status = 200, body = SuccessBody ''Logged out from all devices''\<rparr>, ?db')"
    using nz by (simp add: logoutAll_def)
  have "rt_token r \<notin> set (map rt_token (refresh_tokens ?db'))"
  proof
    assume "rt_token r \<in> set (map rt_token (refresh_tokens ?db'))"
    then obtain x where x: "x \<in> set (refresh_tokens db)" "rt_user_id x \<noteq> rt_user_id r"
        "rt_token x = rt_token r"
      by (auto simp: deleteUserRefreshTokens_def)
    from same_token_same_row [OF assms x(1,3)] x(2) show False by simp
  qed
  then have "findRefreshToken (rt_token r) now ?db' = None"
    by (rule findRefreshToken_None_if_absent)
  with ne have "fst (refresh cfg e now \<lparr>refreshToken = Some (rt_token r)\<rparr> ?db')
                  = error_reply 401 ''Invalid or expired refresh token''"
    by (simp add: refresh_def refresh_interleaved_def)
  with out show ?thesis by simp
qed

theorem logoutAll_revokes_every_session_witness:
  "store_ok alice_db \<and> alice_session \<in> set (refresh_tokens alice_db)
   \<and> fst (refresh default_config test_env 5 \<lparr>refreshToken = Some ''c0ffee''\<rparr> alice_db)
       \<noteq> error_reply 401 ''Invalid or expired refresh token''
   \<and> fst (refresh default_config test_env 5 \<lparr>refreshToken = Some ''c0ffee''\<rparr>
            (snd (logoutAll \<lparr>la_userId = Some 1\<rparr> alice_db)))
       = error_reply 401 ''Invalid or expired refresh token''"
proof -
  have h1: "store_ok alice_db" by (rule alice_db_ok)
  have h2: "alice_session \<in> set (refresh_tokens alice_db)" by (simp add: alice_db_def)
  have before: "fst (refresh default_config test_env 5 \<lparr>refreshToken = Some ''c0ffee''\<rparr> alice_db)
       \<noteq> error_reply 401 ''Invalid or expired refresh token''"
    by (simp add: model_defs concrete_defs)
  from logoutAll_revokes_every_session [OF h1 h2, of default_config test_env 5] h1 h2 before
  show ?thesis by (simp add: alice_session_def)
qed

section \<open>Refresh\<close>

text \<open>
  C3. A successful refresh issues a new access token and nothing else: the reply carries
  only the access token, and the store, hence every refresh-token row, is what it was. The
  row of the presented value is still there, and on that store a later refresh with the
  same value succeeds exactly as long as the clock is before the row's \<open>expires_at\<close>;
  after a logout with that value it is answered 401.
\<close>

theorem refresh_does_not_rotate:
  assumes "store_ok db"
    and "refresh cfg e now \<lparr>refreshToken = Some t\<rparr> db = (rep, db')"
    and "status rep = 200"
  shows "db' = db
       \<and> (\<exists>accessToken. body rep = AccessTokenBody accessToken)
       \<and> (\<exists>r \<in> set (refresh_tokens db'). rt_token r = t \<and> now < rt_expires_at r
            \<and> (\<forall>now'. status (fst (refresh cfg e now' \<lparr>refreshToken = Some t\<rparr> db'))
                          = (if now' < rt_expires_at r then 200 else 401))
            \<and> (\<forall>now'. status (fst (refresh cfg e now' \<lparr>refreshToken = Some t\<rparr>
                                     (snd (logout \<lparr>refreshToken = Some t\<rparr> db')))) = 401))"
proof -
  from refresh_200D [OF assms(2,3)] obtain r u tok where
    t: "t \<noteq> []" and db': "db' = db"
    and r: "findRefreshToken t now db = Some r"
    and u: "findUserById (rt_user_id r) db = Some u"
    and tok: "generateAccessToken cfg e now \<lparr>userId = u_id u, email = u_email u\<rparr> = Inr tok"
    and rep: "rep = \<lparr>status = 200, body = AccessTokenBody tok\<rparr>"
    by blast
  from findRefreshToken_SomeD [OF r] have
    rin: "r \<in> set (refresh_tokens db)" and rt: "rt_token r = t" and live: "now < rt_expires_at r"
    by simp_all
  have later: "status (fst (refresh cfg e now' \<lparr>refreshToken = Some t\<rparr> db))
                 = (if now' < rt_expires_at r then 200 else 401)" for now'
  proof -
    from generateAccessToken_any_time [OF tok] obtain tok' where
      tok': "generateAccessToken cfg e now' \<lparr>userId = u_id u, email = u_email u\<rparr> = Inr tok'"
      by blast
    have "findRefreshToken t now' db = (if rt_expires_at r > now' then Some r else None)"
      using findRefreshToken_unique_row [OF assms(1) rin, of now'] rt by simp
    with t u tok' show ?thesis
      by (simp add: refresh_def refresh_interleaved_def error_reply_def)
  qed
  have gone: "status (fst (refresh cfg e now' \<lparr>refreshToken = Some t\<rparr>
                             (snd (logout \<lparr>refreshToken = Some t\<rparr> db)))) = 401" for now'
  proof -
    have "t \<notin> set (map rt_token (refresh_tokens (snd (logout \<lparr>refreshToken = Some t\<rparr> db))))"
      using t by (auto simp: logout_def deleteRefreshToken_def Let_def)
    then have "findRefreshToken t now' (snd (logout \<lparr>refreshToken = Some t\<rparr> db)) = None"
      by (rule findRefreshToken_None_if_absent)
    with t show ?thesis by (simp add: refresh_def refresh_interleaved_def error_reply_def)
  qed
  from db' rep rin rt live later gone show ?thesis by auto
qed

theorem refresh_does_not_rotate_witness:
  "store_ok alice_db
   \<and> status (fst (refresh default_config test_env 5 \<lparr>refreshToken = Some ''c0ffee''\<rparr> alice_db)) = 200
   \<and> snd (refresh default_config test_env 5 \<lparr>refreshToken = Some ''c0ffee''\<rparr> alice_db) = alice_db
   \<and> status (fst (refresh default_config test_env 999 \<lparr>refreshToken = Some ''c0ffee''\<rparr> alice_db)) = 200
   \<and> status (fst (refresh default_config test_env 1000 \<lparr>refreshToken = Some ''c0ffee''\<rparr> alice_db)) = 401"
proof -
  have h1: "store_ok alice_db" by (rule alice_db_ok)
  obtain rep db' where
    h2: "refresh default_config test_env 5 \<lparr>refreshToken = Some ''c0ffee''\<rparr> alice_db = (rep, db')"
    by (cases "refresh default_config test_env 5 \<lparr>refreshToken = Some ''c0ffee''\<rparr> alice_db")
  have "status (fst (refresh default_config test_env 5 \<lparr>refreshToken = Some ''c0ffee''\<rparr> alice_db)) = 200"
    by (simp add: model_defs concrete_defs)
  with h2 have h3: "status rep = 200" by simp
  from refresh_does_not_rotate [OF h1 h2 h3] obtain r where
    db': "db' = alice_db" and r: "r \<in> set (refresh_tokens db')"
    and all: "\<forall>now'. status (fst (refresh default_config test_env now' \<lparr>refreshToken = Some ''c0ffee''\<rparr> db'))
               = (if now' < rt_expires_at r then 200 else 401)"
    by blast
  from r db' have "r = alice_session" by (simp add: alice_db_def)
  with all db' have
    "status (fst (refresh default_config test_env 999 \<lparr>refreshToken = Some ''c0ffee''\<rparr> alice_db)) = 200"
    "status (fst (refresh default_config test_env 1000 \<lparr>refreshToken = Some ''c0ffee''\<rparr> alice_db)) = 401"
    by (simp_all add: alice_session_def)
  with h1 h2 h3 db' show ?thesis by simp
qed

section \<open>Duplicate registrations\<close>

text \<open>
  C8, as stated, fails: after a successful register with an address, a register with
  another casing of it is not always answered with the conflict. The handler validates
  the request before it looks for the address, so a second request without a password, or
  with one that violates the policy, is answered 400.
\<close>

theorem register_other_casing_rejected_counterexample:
  "status (fst (register default_config test_env ''c0ffee'' 0 register_alice empty_db)) = 201
   \<and> equalIgnoringCase ''A@B.com'' ''a@b.com''
   \<and> fst (register default_config test_env ''beef'' 9
             \<lparr>reg_email = Some ''A@B.com'', reg_password = None, reg_fullName = None\<rparr>
             (snd (register default_config test_env ''c0ffee'' 0 register_alice empty_db)))
       = error_reply 400 ''Email and password are required''
   \<and> status (fst (register default_config test_env ''beef'' 9
             \<lparr>reg_email = Some ''A@B.com'', reg_password = Some ''weak'', reg_fullName = None\<rparr>
             (snd (register default_config test_env ''c0ffee'' 0 register_alice empty_db)))) = 400
   \<and> error_reply 400 ''Email and password are required''
       \<noteq> error_reply 409 ''User with this email already exists''"
  by (simp add: model_defs concrete_defs equalIgnoringCase_def sameLetter_def
        isUpperCaseLetter_def)

text \<open>
  C8, amended. After a successful register with an address, a register with the same
  address in any casing (equal up to the case of its letters) creates no user row and is
  never answered 201. It is answered with the 409 conflict, the store unchanged, when the
  request passes the validation that precedes the duplicate check (a non-empty password
  that meets the policy, an email of valid format), and with 400, the store unchanged,
  when it does not.
\<close>

theorem register_other_casing_conflicts:
  assumes "register cfg e rnd now req db = (rep, db1)"
    and "status rep = 201"
    and "reg_email req = Some em"
    and "reg_email req2 = Some em2"
    and "equalIgnoringCase em2 em"
  shows "users (snd (register cfg2 e2 rnd2 now2 req2 db1)) = users db1
       \<and> status (fst (register cfg2 e2 rnd2 now2 req2 db1)) \<in> {400, 409}
       \<and> ((\<exists>pw2. reg_password req2 = Some pw2 \<and> pw2 \<noteq> [] \<and> valid (isValidPassword e2 pw2))
            \<and> isValidEmail e2 em2
          \<longrightarrow> register cfg2 e2 rnd2 now2 req2 db1
                = (error_reply 409 ''User with this email already exists'', db1))
       \<and> (\<not> ((\<exists>pw2. reg_password req2 = Some pw2 \<and> pw2 \<noteq> [] \<and> valid (isValidPassword e2 pw2))
               \<and> isValidEmail e2 em2)
          \<longrightarrow> status (fst (register cfg2 e2 rnd2 now2 req2 db1)) = 400
              \<and> snd (register cfg2 e2 rnd2 now2 req2 db1) = db1)"
proof -
  from assms(5) have same: "toLowerCase em2 = toLowerCase em"
    by (rule equalIgnoringCase_toLowerCase)
  from register_201_email [OF assms(1,2,3)] assms(5) have ne: "em2 \<noteq> []"
    by (simp add: equalIgnoringCase_Nil)
  from register_201D [OF assms(1,2,3)] same
  have "findUserByEmail (toLowerCase em2) db1 \<noteq> None"
    by (simp add: findUserByEmail_None_iff)
  with assms(4) ne show ?thesis
    by (auto simp: register_def register_interleaved_def error_reply_def Let_def
             split: option.splits)
qed

theorem register_other_casing_conflicts_witness:
  "status (fst (register default_config test_env ''c0ffee'' 0 register_alice empty_db)) = 201
   \<and> equalIgnoringCase ''A@B.com'' ''a@b.com''
   \<and> register default_config test_env ''beef'' 9
        \<lparr>reg_email = Some ''A@B.com'', reg_password = Some ''Passw0rd'', reg_fullName = None\<rparr>
        (snd (register default_config test_env ''c0ffee'' 0 register_alice empty_db))
      = (error_reply 409 ''User with this email already exists'',
         snd (register default_config test_env ''c0ffee'' 0 register_alice empty_db))"
proof -
  obtain rep db1 where
    h1: "register default_config test_env ''c0ffee'' 0 register_alice empty_db = (rep, db1)"
    by (cases "register default_config test_env ''c0ffee'' 0 register_alice empty_db")
  have first: "status (fst (register default_config test_env ''c0ffee'' 0 register_alice empty_db)) = 201"
    by (simp add: model_defs concrete_defs)
  with h1 have h2: "status rep = 201" by simp
  have h3: "reg_email register_alice = Some ''a@b.com''" by (simp add: register_alice_def)
  have h5: "equalIgnoringCase ''A@B.com'' ''a@b.com''"
    by (simp add: equalIgnoringCase_def sameLetter_def isUpperCaseLetter_def)
  have ok2: "valid (isValidPassword test_env ''Passw0rd'') \<and> isValidEmail test_env ''A@B.com''"
    by (simp add: test_env_def spec_isValidPassword_def spec_isValidEmail_def)
  from register_other_casing_conflicts [OF h1 h2 h3 _ h5,
      of "\<lparr>reg_email = Some ''A@B.com'', reg_password = Some ''Passw0rd'', reg_fullName = None\<rparr>"
         default_config test_env "''beef''" 9] ok2
  have "register default_config test_env ''beef'' 9
        \<lparr>reg_email = Some ''A@B.com'', reg_password = Some ''Passw0rd'', reg_fullName = None\<rparr> db1
      = (error_reply 409 ''User with this email already exists'', db1)"
    by simp
  with h1 first h5 show ?thesis by simp
qed

section \<open>Access tokens\<close>

text \<open>
  C5. When the configured access-token lifetime is a time span, \<open>generateAccessToken\<close>
  produces a token for every user id and email, and \<open>verifyAccessToken\<close> on that token
  returns the same user id and email at every time before issue time plus lifetime, and
  null from then on.
\<close>

theorem access_token_roundtrip:
  assumes "timespan e (accessExpiry cfg) = Some lifetime"
  shows "\<exists>tok. generateAccessToken cfg e now \<lparr>userId = uid, email = em\<rparr> = Inr tok
           \<and> (\<forall>now'. verifyAccessToken cfg e now' tok
                        = (if now' < now + lifetime then Some \<lparr>userId = uid, email = em\<rparr>
                           else None))"
  using assms
  by (simp add: generateAccessToken_def verifyAccessToken_def jwt_sign_def jwt_verify_def)

theorem access_token_roundtrip_witness:
  "timespan test_env (accessExpiry default_config) = Some 900000
   \<and> (\<exists>tok. generateAccessToken default_config test_env 0 \<lparr>userId = 1, email = ''a@b.com''\<rparr> = Inr tok
         \<and> verifyAccessToken default_config test_env 899999 tok
             = Some \<lparr>userId = 1, email = ''a@b.com''\<rparr>
         \<and> verifyAccessToken default_config test_env 900000 tok = None)"
proof -
  have h: "timespan test_env (accessExpiry default_config) = Some 900000"
    by (simp add: test_env_def default_config_def)
  from access_token_roundtrip [OF h, of 0 1 "''a@b.com''"] obtain tok where
    "generateAccessToken default_config test_env 0 \<lparr>userId = 1, email = ''a@b.com''\<rparr> = Inr tok"
    "\<forall>now'. verifyAccessToken default_config test_env now' tok
               = (if now' < 0 + 900000 then Some \<lparr>userId = 1, email = ''a@b.com''\<rparr> else None)"
    by blast
  then have "generateAccessToken default_config test_env 0 \<lparr>userId = 1, email = ''a@b.com''\<rparr> = Inr tok
     \<and> verifyAccessToken default_config test_env 899999 tok = Some \<lparr>userId = 1, email = ''a@b.com''\<rparr>
     \<and> verifyAccessToken default_config test_env 900000 tok = None"
    by simp
  with h show ?thesis by blast
qed

section \<open>Failing authentication requests\<close>

text \<open>
  C2, as stated, fails for refresh: a refresh whose token row is found but whose user row is
  gone by the time of the user lookup is answered \<^verbatim>\<open>User not found\<close>, while a
  refresh with an unknown value is answered \<^verbatim>\<open>Invalid or expired refresh token\<close>.
\<close>

theorem refresh_failures_differ_counterexample:
  "fst (refresh_interleaved default_config test_env 5 (deleteUserCascade 1)
          \<lparr>refreshToken = Some ''c0ffee''\<rparr> alice_db)
     = error_reply 401 ''User not found''
   \<and> fst (refresh_interleaved default_config test_env 5 (deleteUserCascade 1)
          \<lparr>refreshToken = Some ''decaf''\<rparr> alice_db)
     = error_reply 401 ''Invalid or expired refresh token''
   \<and> fst (refresh_interleaved default_config test_env 5 (deleteUserCascade 1)
          \<lparr>refreshToken = Some ''c0ffee''\<rparr> alice_db)
     \<noteq> fst (refresh_interleaved default_config test_env 5 (deleteUserCascade 1)
          \<lparr>refreshToken = Some ''decaf''\<rparr> alice_db)"
  by (simp add: model_defs concrete_defs)

text \<open>
  C2, amended. A login with an unknown email and a login with a known email and a wrong
  password get the same reply, 401 with \<^verbatim>\<open>Invalid email or password\<close>, and leave
  the store unchanged. A refresh with an absent or expired token and a refresh with a valid
  token whose user row is missing both get status 401, the first with the message
  \<^verbatim>\<open>Invalid or expired refresh token\<close>, the second with \<^verbatim>\<open>User not found\<close>.
\<close>

theorem auth_failures_unauthorized:
  "(em \<noteq> [] \<and> pw \<noteq> []
      \<and> (findUserByEmail (toLowerCase em) db = None
         \<or> (\<exists>u. findUserByEmail (toLowerCase em) db = Some u
                \<and> \<not> comparePassword e pw (u_password_hash u)))
    \<longrightarrow> login cfg e rnd now \<lparr>login_email = Some em, login_password = Some pw\<rparr> db
          = (error_reply 401 ''Invalid email or password'', db))
   \<and> (t \<noteq> [] \<and> findRefreshToken t now db = None
    \<longrightarrow> fst (refresh_interleaved cfg e now concurrent \<lparr>refreshToken = Some t\<rparr> db)
          = error_reply 401 ''Invalid or expired refresh token'')
   \<and> (t \<noteq> [] \<and> (\<exists>r. findRefreshToken t now db = Some r
                     \<and> findUserById (rt_user_id r) (concurrent db) = None)
    \<longrightarrow> fst (refresh_interleaved cfg e now concurrent \<lparr>refreshToken = Some t\<rparr> db)
          = error_reply 401 ''User not found'')"
  by (auto simp: login_def refresh_interleaved_def)

theorem auth_failures_unauthorized_witness:
  "login default_config test_env ''beef'' 5
       \<lparr>login_email = Some ''x@y.com'', login_password = Some ''Passw0rd''\<rparr> alice_db
     = (error_reply 401 ''Invalid email or password'', alice_db)
   \<and> login default_config test_env ''beef'' 5
       \<lparr>login_email = Some ''a@b.com'', login_password = Some ''wrong''\<rparr> alice_db
     = (error_reply 401 ''Invalid email or password'', alice_db)
   \<and> status (fst (refresh_interleaved default_config test_env 1000 (deleteUserCascade 1)
                \<lparr>refreshToken = Some ''c0ffee''\<rparr> alice_db)) = 401
   \<and> status (fst (refresh_interleaved default_config test_env 5 (deleteUserCascade 1)
                \<lparr>refreshToken = Some ''c0ffee''\<rparr> alice_db)) = 401"
proof -
  have unknown: "findUserByEmail (toLowerCase ''x@y.com'') alice_db = None"
    by (simp add: model_defs concrete_defs)
  have known: "findUserByEmail (toLowerCase ''a@b.com'') alice_db = Some alice"
    by (simp add: model_defs concrete_defs)
  have wrong: "\<not> comparePassword test_env ''wrong'' (u_password_hash alice)"
    by (simp add: test_env_def alice_def)
  have expired: "findRefreshToken ''c0ffee'' 1000 alice_db = None"
    by (simp add: model_defs concrete_defs)
  have live: "findRefreshToken ''c0ffee'' 5 alice_db = Some alice_session"
    by (simp add: model_defs concrete_defs)
  have orphan: "findUserById (rt_user_id alice_session) (deleteUserCascade 1 alice_db) = None"
    by (simp add: model_defs concrete_defs)
  from auth_failures_unauthorized
         [of "''x@y.com''" "''Passw0rd''" alice_db test_env default_config "''beef''" 5] unknown
  have a: "login default_config test_env ''beef'' 5
       \<lparr>login_email = Some ''x@y.com'', login_password = Some ''Passw0rd''\<rparr> alice_db
     = (error_reply 401 ''Invalid email or password'', alice_db)"
    by simp
  from auth_failures_unauthorized
         [of "''a@b.com''" "''wrong''" alice_db test_env default_config "''beef''" 5] known wrong
  have b: "login default_config test_env ''beef'' 5
       \<lparr>login_email = Some ''a@b.com'', login_password = Some ''wrong''\<rparr> alice_db
     = (error_reply 401 ''Invalid email or password'', alice_db)"
    by simp
  from auth_failures_unauthorized
         [of _ _ alice_db test_env default_config _ 1000 "''c0ffee''" "deleteUserCascade 1"] expired
  have c: "status (fst (refresh_interleaved default_config test_env 1000 (deleteUserCascade 1)
                \<lparr>refreshToken = Some ''c0ffee''\<rparr> alice_db)) = 401"
    by (simp add: error_reply_def)
  from auth_failures_unauthorized
         [of _ _ alice_db test_env default_config _ 5 "''c0ffee''" "deleteUserCascade 1"] live orphan
  have d: "status (fst (refresh_interleaved default_config test_env 5 (deleteUserCascade 1)
                \<lparr>refreshToken = Some ''c0ffee''\<rparr> alice_db)) = 401"
    by (simp add: error_reply_def)
  from a b c d show ?thesis by simp
qed

section \<open>A registration that loses the race\<close>

text \<open>
  C9, as stated, fails: when another registration of the same address completes between
  the duplicate check and the insert, the insert raises the uniqueness violation and the
  handler's \<^verbatim>\<open>catch\<close> answers 500, not the 409 that the duplicate check gives.
\<close>

theorem register_race_counterexample:
  "findUserByEmail (toLowerCase ''a@b.com'') empty_db = None
   \<and> fst (register_interleaved default_config test_env ''c0ffee'' 0 concurrent_register_alice
            register_alice empty_db)
       = error_reply 500 ''Failed to register user''
   \<and> fst (register default_config test_env ''c0ffee'' 0 register_alice
            (concurrent_register_alice empty_db))
       = error_reply 409 ''User with this email already exists''
   \<and> error_reply 500 ''Failed to register user''
       \<noteq> error_reply 409 ''User with this email already exists''"
  by (simp add: model_defs concrete_defs concurrent_register_alice_def)

text \<open>
  C9, amended. When the duplicate check of register passes and the address is in the
  \<open>users\<close> table by the time of the insert, \<open>createUser\<close> raises the uniqueness
  violation and the handler answers 500 with \<^verbatim>\<open>Failed to register user\<close>; the call
  adds no user row and no refresh-token row.
\<close>

theorem register_lost_race_is_internal_error:
  assumes "reg_email req = Some em" and "reg_password req = Some pw"
    and "em \<noteq> []" and "pw \<noteq> []"
    and "isValidEmail e em" and "valid (isValidPassword e pw)"
    and "findUserByEmail (toLowerCase em) db = None"
    and "findUserByEmail (toLowerCase em) (concurrent db) \<noteq> None"
  shows "fst (createUser (toLowerCase em) (hashPassword e pw) (reg_fullName req) now (concurrent db))
           = Inl UniqueViolation
       \<and> fst (register_interleaved cfg e rnd now concurrent req db)
           = error_reply 500 ''Failed to register user''
       \<and> users (snd (register_interleaved cfg e rnd now concurrent req db))
           = users (concurrent db)
       \<and> refresh_tokens (snd (register_interleaved cfg e rnd now concurrent req db))
           = refresh_tokens (concurrent db)"
proof -
  from assms(8) have "toLowerCase em \<in> set (map u_email (users (concurrent db)))"
    by (simp add: findUserByEmail_None_iff)
  then have "createUser (toLowerCase em) (hashPassword e pw) (reg_fullName req) now (concurrent db)
               = (Inl UniqueViolation, (concurrent db)\<lparr>users_id_seq := users_id_seq (concurrent db) + 1\<rparr>)"
    by (simp add: createUser_def Let_def)
  with assms(1-7) show ?thesis
    by (simp add: register_interleaved_def register_create_def Let_def)
qed

theorem register_lost_race_is_internal_error_witness:
  "findUserByEmail (toLowerCase ''a@b.com'') empty_db = None
   \<and> findUserByEmail (toLowerCase ''a@b.com'') (concurrent_register_alice empty_db) \<noteq> None
   \<and> fst (register_interleaved default_config test_env ''c0ffee'' 0 concurrent_register_alice
            register_alice empty_db)
       = error_reply 500 ''Failed to register user''
   \<and> users (snd (register_interleaved default_config test_env ''c0ffee'' 0
                   concurrent_register_alice register_alice empty_db))
       = users (concurrent_register_alice empty_db)"
proof -
  have h1: "reg_email register_alice = Some ''a@b.com''"
    and h2: "reg_password register_alice = Some ''Passw0rd''"
    by (simp_all add: register_alice_def)
  have h3: "''a@b.com'' \<noteq> []" and h4: "''Passw0rd'' \<noteq> []" by simp_all
  have h5: "isValidEmail test_env ''a@b.com''"
    and h6: "valid (isValidPassword test_env ''Passw0rd'')"
    by (simp_all add: test_env_def spec_isValidPassword_def spec_isValidEmail_def)
  have h7: "findUserByEmail (toLowerCase ''a@b.com'') empty_db = None"
    by (simp add: model_defs concrete_defs)
  have h8: "findUserByEmail (toLowerCase ''a@b.com'') (concurrent_register_alice empty_db) \<noteq> None"
    by (simp add: model_defs concrete_defs concurrent_register_alice_def)
  from register_lost_race_is_internal_error
         [where concurrent = concurrent_register_alice and db = empty_db and now = 0
            and cfg = default_config and rnd = "''c0ffee''", OF h1 h2 h3 h4 h5 h6 h7 h8] h7 h8
  show ?thesis by simp
qed

end
